theory Spec2Isabelle
  imports Main
begin

section \<open>Python values and exceptions\<close>

text \<open>
  An exception carries its class and its message. The classes are the two the module
  meets (\<^verbatim>\<open>ValueError\<close>, raised by \<^verbatim>\<open>add_user\<close>, and \<^verbatim>\<open>TypeError\<close>, raised by
  \<^verbatim>\<open>*\<close> on an operand that does not support it), the built-in classes that derive
  from \<^verbatim>\<open>BaseException\<close> but not from \<^verbatim>\<open>Exception\<close>, and the classes a caller
  defines: such a class is given by its name, by whether it derives from
  \<^verbatim>\<open>Exception\<close>, and by the exception its \<^verbatim>\<open>__str__\<close> raises, if it raises.
\<close>

datatype exn_class =
    ValueError
  | TypeError
  | SystemExit
  | KeyboardInterrupt
  | GeneratorExit
  | UserDefined string bool "exn option"
and exn = Exn exn_class string

fun derives_from_Exception :: "exn_class \<Rightarrow> bool" where
  "derives_from_Exception SystemExit = False"
| "derives_from_Exception KeyboardInterrupt = False"
| "derives_from_Exception GeneratorExit = False"
| "derives_from_Exception (UserDefined cname derived str_raises) = derived"
| "derives_from_Exception _ = True"

text \<open>\<^verbatim>\<open>isinstance(e, Exception)\<close>, the test of \<^verbatim>\<open>except Exception\<close>.\<close>

fun is_Exception :: "exn \<Rightarrow> bool" where
  "is_Exception (Exn c msg) = derives_from_Exception c"

text \<open>
  Binary64 arithmetic is not evaluated. A \<^verbatim>\<open>float\<close> is either given by its 64 bits or
  it is the product of a float and an int, kept as that product; a \<^verbatim>\<open>complex\<close> is either
  given by its two parts or it is the product of a complex and an int. What the module
  depends on is that such a product never raises: an overflow gives \<^verbatim>\<open>inf\<close>, and
  \<^verbatim>\<open>nan\<close> stays \<^verbatim>\<open>nan\<close>.
\<close>

datatype pyfloat = FloatBits nat | FloatTimesInt pyfloat int

datatype pycomplex = ComplexParts pyfloat pyfloat | ComplexTimesInt pycomplex int

text \<open>
  The module \<^verbatim>\<open>examples/violations.py\<close> is dynamically typed. The values that reach
  it are \<^verbatim>\<open>None\<close>, \<^verbatim>\<open>bool\<close>, \<^verbatim>\<open>int\<close> (unbounded), \<^verbatim>\<open>float\<close>, \<^verbatim>\<open>complex\<close>,
  \<^verbatim>\<open>str\<close>, \<^verbatim>\<open>list\<close>, \<^verbatim>\<open>tuple\<close>, \<^verbatim>\<open>dict\<close> (its items in order), \<^verbatim>\<open>set\<close> (its
  elements in the order of iteration), and objects of any other class. Such an object is
  given by what the module can do with it: what \<^verbatim>\<open>obj * 2\<close> returns or raises, the
  exception \<^verbatim>\<open>format(obj, "")\<close> raises, if it raises, and the exception \<^verbatim>\<open>repr(obj)\<close>
  raises, if it raises. Running out of memory is not modelled.
\<close>

datatype pyval =
    PNone
  | PBool bool
  | PInt int
  | PFloat pyfloat
  | PComplex pycomplex
  | PStr string
  | PList "pyval list"
  | PTuple "pyval list"
  | PDict "(pyval \<times> pyval) list"
  | PSet "pyval list"
  | PObj "exn + pyval" "exn option" "exn option"

section \<open>Module state\<close>

text \<open>
  \<^verbatim>\<open>cache = {}\<close> and \<^verbatim>\<open>counter = 0\<close> are module globals, shared by every
  \<^verbatim>\<open>UserService\<close> instance. A dict is a partial map.
\<close>

record globals =
  cache :: "string \<rightharpoonup> pyval"
  counter :: int

definition init_globals :: globals where
  "init_globals = \<lparr>cache = Map.empty, counter = 0\<rparr>"

text \<open>A user is the dict \<^verbatim>\<open>{"name": name, "age": age, "id": ...}\<close>.\<close>

record user =
  name :: string
  age :: int
  user_id :: int

text \<open>An instance of \<^verbatim>\<open>UserService\<close>: its two attributes.\<close>

record UserService =
  users :: "user list"
  config :: "string \<rightharpoonup> pyval"

text \<open>\<^verbatim>\<open>__init__\<close>: an empty list and the dict \<^verbatim>\<open>{"debug": True}\<close>.\<close>

definition init_UserService :: UserService where
  "init_UserService = \<lparr>users = [], config = [''debug'' \<mapsto> PBool True]\<rparr>"

section \<open>The methods of UserService\<close>

text \<open>
  Every method takes the instance and the globals and returns its result with the
  instance and the globals as it leaves them.

  \<^verbatim>\<open>generate_id\<close>: \<^verbatim>\<open>counter += 1; return counter\<close>.
\<close>

definition generate_id :: "UserService \<Rightarrow> globals \<Rightarrow> int \<times> UserService \<times> globals" where
  "generate_id self g =
     (let g' = g\<lparr>counter := counter g + 1\<rparr>
      in (counter g', self, g'))"

text \<open>
  \<^verbatim>\<open>add_user\<close>: the age check raises before anything is touched; otherwise the
  dict is built (which calls \<^verbatim>\<open>generate_id\<close>), appended to \<^verbatim>\<open>self.users\<close> and
  returned.
\<close>

definition add_user ::
  "UserService \<Rightarrow> string \<Rightarrow> int \<Rightarrow> globals \<Rightarrow> (exn + user) \<times> UserService \<times> globals" where
  "add_user self nm ag g =
     (if ag < 0 then (Inl (Exn ValueError ''Age cannot be negative''), self, g)
      else
        (case generate_id self g of
           (i, self1, g1) \<Rightarrow>
             (let u = \<lparr>name = nm, age = ag, user_id = i\<rparr>;
                  self2 = self1\<lparr>users := users self1 @ [u]\<rparr>
              in (Inr u, self2, g1))))"

text \<open>
  \<^verbatim>\<open>find_user\<close>: the loop over \<^verbatim>\<open>self.users\<close> returns at the first user whose
  name equals the argument, and \<^verbatim>\<open>None\<close> after the last one.
\<close>

fun find_loop :: "user list \<Rightarrow> string \<Rightarrow> user option" where
  "find_loop [] nm = None"
| "find_loop (u # us) nm = (if name u = nm then Some u else find_loop us nm)"

definition find_user ::
  "UserService \<Rightarrow> string \<Rightarrow> globals \<Rightarrow> user option \<times> UserService \<times> globals" where
  "find_user self nm g = (find_loop (users self) nm, self, g)"

text \<open>
  \<^verbatim>\<open>update_config\<close>: \<^verbatim>\<open>self.config[key] = value; cache[key] = value\<close>. It returns
  nothing.
\<close>

definition update_config ::
  "UserService \<Rightarrow> string \<Rightarrow> pyval \<Rightarrow> globals \<Rightarrow> UserService \<times> globals" where
  "update_config self key val g =
     (let self1 = self\<lparr>config := (config self)(key \<mapsto> val)\<rparr>;
          g1 = g\<lparr>cache := (cache g)(key \<mapsto> val)\<rparr>
      in (self1, g1))"

section \<open>Clients of the module\<close>

text \<open>
  A process holds the globals and the instances created so far; an instance is referred
  to by its position in the heap. A client creates instances and calls their methods.
  A call on a reference that was never created is not a program (\<open>None\<close>).
\<close>

record world =
  glob :: globals
  heap :: "UserService list"

definition init_world :: world where
  "init_world = \<lparr>glob = init_globals, heap = []\<rparr>"

datatype call =
    New
  | AddUser nat string int
  | GenerateId nat
  | FindUser nat string
  | UpdateConfig nat string pyval

datatype outcome =
    Created nat
  | ReturnedUser user
  | Raised exn
  | ReturnedId int
  | Found "user option"
  | ReturnedNone

definition put :: "world \<Rightarrow> nat \<Rightarrow> UserService \<Rightarrow> globals \<Rightarrow> world" where
  "put w r self g = \<lparr>glob = g, heap = (heap w)[r := self]\<rparr>"

fun step :: "world \<Rightarrow> call \<Rightarrow> (outcome \<times> world) option" where
  "step w New = Some (Created (length (heap w)), w\<lparr>heap := heap w @ [init_UserService]\<rparr>)"
| "step w (AddUser r nm ag) =
     (if r < length (heap w) then
        (case add_user (heap w ! r) nm ag (glob w) of
           (Inl e, self, g) \<Rightarrow> Some (Raised e, put w r self g)
         | (Inr u, self, g) \<Rightarrow> Some (ReturnedUser u, put w r self g))
      else None)"
| "step w (GenerateId r) =
     (if r < length (heap w) then
        (case generate_id (heap w ! r) (glob w) of
           (i, self, g) \<Rightarrow> Some (ReturnedId i, put w r self g))
      else None)"
| "step w (FindUser r nm) =
     (if r < length (heap w) then
        (case find_user (heap w ! r) nm (glob w) of
           (res, self, g) \<Rightarrow> Some (Found res, put w r self g))
      else None)"
| "step w (UpdateConfig r key val) =
     (if r < length (heap w) then
        (case update_config (heap w ! r) key val (glob w) of
           (self, g) \<Rightarrow> Some (ReturnedNone, put w r self g))
      else None)"

fun run :: "world \<Rightarrow> call list \<Rightarrow> (outcome list \<times> world) option" where
  "run w [] = Some ([], w)"
| "run w (c # cs) =
     (case step w c of
        None \<Rightarrow> None
      | Some (out, w1) \<Rightarrow>
          (case run w1 cs of
             None \<Rightarrow> None
           | Some (outs, w2) \<Rightarrow> Some (out # outs, w2)))"

text \<open>The ids that \<^verbatim>\<open>generate_id\<close> handed out during a run, in the order it did.\<close>

fun issued :: "outcome list \<Rightarrow> int list" where
  "issued [] = []"
| "issued (ReturnedUser u # outs) = user_id u # issued outs"
| "issued (ReturnedId i # outs) = i # issued outs"
| "issued (_ # outs) = issued outs"

text \<open>
  The invariant of the user collections: the counter is non-negative, every age is
  non-negative, every id was drawn from the counter, within an instance the ids increase strictly along the list (the
  order of creation), and no id occurs twice among the users of all instances.
\<close>

definition all_ids :: "UserService list \<Rightarrow> int list" where
  "all_ids h = concat (map (\<lambda>s. map user_id (users s)) h)"

definition user_ok :: "globals \<Rightarrow> user \<Rightarrow> bool" where
  "user_ok g u = (0 \<le> age u \<and> 0 < user_id u \<and> user_id u \<le> counter g)"

definition service_ok :: "globals \<Rightarrow> UserService \<Rightarrow> bool" where
  "service_ok g s = (list_all (user_ok g) (users s) \<and> sorted_wrt (<) (map user_id (users s)))"

definition users_inv :: "world \<Rightarrow> bool" where
  "users_inv w =
     (0 \<le> counter (glob w) \<and> list_all (service_ok (glob w)) (heap w) \<and>
      distinct (all_ids (heap w)))"

section \<open>process_data\<close>

text \<open>
  The expression \<^verbatim>\<open>item * 2\<close>. Numbers are multiplied (\<^verbatim>\<open>bool\<close> is a subclass of
  \<^verbatim>\<open>int\<close>), strings, lists and tuples are repeated, \<^verbatim>\<open>None\<close>, dicts and sets raise
  \<^verbatim>\<open>TypeError\<close>, and an object of another class does what its class says.
\<close>

definition quoted :: "string \<Rightarrow> string" where
  "quoted s = CHR 0x27 # s @ [CHR 0x27]"

definition unsupported :: "string \<Rightarrow> exn" where
  "unsupported tname =
     Exn TypeError (''unsupported operand type(s) for *: '' @ quoted tname
                     @ '' and '' @ quoted ''int'')"

fun times_2 :: "pyval \<Rightarrow> exn + pyval" where
  "times_2 PNone = Inl (unsupported ''NoneType'')"
| "times_2 (PBool b) = Inr (PInt ((if b then 1 else 0) * 2))"
| "times_2 (PInt i) = Inr (PInt (i * 2))"
| "times_2 (PFloat x) = Inr (PFloat (FloatTimesInt x 2))"
| "times_2 (PComplex z) = Inr (PComplex (ComplexTimesInt z 2))"
| "times_2 (PStr s) = Inr (PStr (s @ s))"
| "times_2 (PList xs) = Inr (PList (xs @ xs))"
| "times_2 (PTuple xs) = Inr (PTuple (xs @ xs))"
| "times_2 (PDict kvs) = Inl (unsupported ''dict'')"
| "times_2 (PSet xs) = Inl (unsupported ''set'')"
| "times_2 (PObj mul fmt rpr) = mul"

text \<open>
  The setting of the interpreter that the module's behaviour depends on:
  \<^verbatim>\<open>sys.get_int_max_str_digits()\<close>, the greatest number of digits an \<^verbatim>\<open>int\<close> may have
  when it is converted to a string. It is 4300 unless changed, and 0 switches the limit
  off (as does an interpreter older than the limit).
\<close>

record runtime =
  int_max_str_digits :: nat

definition default_runtime :: runtime where
  "default_runtime = \<lparr>int_max_str_digits = 4300\<rparr>"

fun show_nat :: "nat \<Rightarrow> string" where
  "show_nat n =
     (if n < 10 then [char_of (48 + n)]
      else show_nat (n div 10) @ [char_of (48 + n mod 10)])"

declare show_nat.simps [simp del]

text \<open>
  The exception that converting an \<^verbatim>\<open>int\<close> to its decimal string raises, if it raises:
  \<^verbatim>\<open>ValueError\<close> when the \<^verbatim>\<open>int\<close> has more digits than the limit.
\<close>

definition int_str_error :: "runtime \<Rightarrow> int \<Rightarrow> exn option" where
  "int_str_error rt i =
     (if 0 < int_max_str_digits rt \<and> 10 ^ int_max_str_digits rt \<le> \<bar>i\<bar>
      then Some (Exn ValueError
                  (''Exceeds the limit ('' @ show_nat (int_max_str_digits rt)
                   @ '' digits) for integer string conversion; ''
                   @ ''use sys.set_int_max_str_digits() to increase the limit''))
      else None)"

fun first_error :: "exn option list \<Rightarrow> exn option" where
  "first_error [] = None"
| "first_error (None # es) = first_error es"
| "first_error (Some e # es) = Some e"

text \<open>
  The exception \<^verbatim>\<open>repr(v)\<close> raises, if it raises. A container renders its elements
  with \<^verbatim>\<open>repr\<close>, in order (a dict each key and then its value), and the first
  exception ends the rendering.
\<close>

fun repr_error :: "runtime \<Rightarrow> pyval \<Rightarrow> exn option" where
  "repr_error rt PNone = None"
| "repr_error rt (PBool b) = None"
| "repr_error rt (PInt i) = int_str_error rt i"
| "repr_error rt (PFloat x) = None"
| "repr_error rt (PComplex z) = None"
| "repr_error rt (PStr s) = None"
| "repr_error rt (PList xs) = first_error (map (repr_error rt) xs)"
| "repr_error rt (PTuple xs) = first_error (map (repr_error rt) xs)"
| "repr_error rt (PDict kvs) =
     first_error (concat (map (\<lambda>(k, v). [repr_error rt k, repr_error rt v]) kvs))"
| "repr_error rt (PSet xs) = first_error (map (repr_error rt) xs)"
| "repr_error rt (PObj mul fmt rpr) = rpr"

text \<open>
  The exception \<^verbatim>\<open>format(v, "")\<close> raises, if it raises: that is what \<^verbatim>\<open>{item}\<close>
  in an f-string evaluates. For the built-in types it is \<^verbatim>\<open>str(v)\<close>, which is
  \<^verbatim>\<open>repr(v)\<close> but for a string, which is rendered as it is.
\<close>

fun format_error :: "runtime \<Rightarrow> pyval \<Rightarrow> exn option" where
  "format_error rt (PObj mul fmt rpr) = fmt"
| "format_error rt (PStr s) = None"
| "format_error rt v = repr_error rt v"

text \<open>
  The exception \<^verbatim>\<open>str(e)\<close> raises, if it raises: that is what \<^verbatim>\<open>{e}\<close> evaluates. A
  built-in exception renders its message.
\<close>

fun str_error :: "exn \<Rightarrow> exn option" where
  "str_error (Exn (UserDefined cname derived str_raises) msg) = str_raises"
| "str_error (Exn c msg) = None"

text \<open>
  The exception that evaluating \<^verbatim>\<open>f"Failed to process {item}: {e}"\<close> raises, if it
  raises: the item is rendered first, the exception second.
\<close>

definition fstring_error :: "runtime \<Rightarrow> pyval \<Rightarrow> exn \<Rightarrow> exn option" where
  "fstring_error rt item e =
     (case format_error rt item of
        Some x \<Rightarrow> Some x
      | None \<Rightarrow> str_error e)"

text \<open>
  A record handed to \<^verbatim>\<open>logging.error\<close>. The text of its message is not modelled: the
  record keeps the item and the exception the message was rendered from. Handing a
  record to the logger does not raise: the handlers of \<^verbatim>\<open>logging\<close> report their own
  errors instead of raising them.
\<close>

datatype log_record = LogError pyval exn

text \<open>
  What \<^verbatim>\<open>for item in items\<close> sees of its argument: the items it yields, and the
  exception that ends the iteration, if one does. A list, a tuple or another sequence
  ends without one; an argument that cannot be iterated yields nothing and raises
  \<^verbatim>\<open>TypeError\<close>.
\<close>

datatype iteration = Iteration "pyval list" "exn option"

text \<open>
  The loop of \<^verbatim>\<open>process_data\<close>, with \<^verbatim>\<open>results\<close> and the records logged so far as
  accumulators. It returns the list, or the exception that reaches the caller, together
  with the records logged until then. An exception raised by \<^verbatim>\<open>item * 2\<close> is handled
  when \<^verbatim>\<open>except Exception\<close> matches it and reaches the caller otherwise; the handler
  evaluates the f-string, which is outside the \<^verbatim>\<open>try\<close>, as is the iteration.
\<close>

fun process_loop ::
  "runtime \<Rightarrow> pyval list \<Rightarrow> exn option \<Rightarrow> pyval list \<Rightarrow> log_record list
     \<Rightarrow> (exn + pyval list) \<times> log_record list" where
  "process_loop rt [] ending results logged =
     (case ending of
        None \<Rightarrow> (Inr results, logged)
      | Some e \<Rightarrow> (Inl e, logged))"
| "process_loop rt (item # items) ending results logged =
     (case times_2 item of
        Inr result \<Rightarrow> process_loop rt items ending (results @ [result]) logged
      | Inl e \<Rightarrow>
          (if is_Exception e then
             (case fstring_error rt item e of
                Some e2 \<Rightarrow> (Inl e2, logged)
              | None \<Rightarrow> process_loop rt items ending results (logged @ [LogError item e]))
           else (Inl e, logged)))"

fun process_data :: "runtime \<Rightarrow> iteration \<Rightarrow> (exn + pyval list) \<times> log_record list" where
  "process_data rt (Iteration items ending) = process_loop rt items ending [] []"

text \<open>The numbers among the values: \<^verbatim>\<open>bool\<close>, \<^verbatim>\<open>int\<close>, \<^verbatim>\<open>float\<close> and \<^verbatim>\<open>complex\<close>.\<close>

fun is_number :: "pyval \<Rightarrow> bool" where
  "is_number (PBool b) = True"
| "is_number (PInt i) = True"
| "is_number (PFloat x) = True"
| "is_number (PComplex z) = True"
| "is_number v = False"


section \<open>Facts about the methods\<close>

lemma add_user_valid:
  "0 \<le> ag \<Longrightarrow>
   add_user self nm ag g =
     (Inr \<lparr>name = nm, age = ag, user_id = counter g + 1\<rparr>,
      self\<lparr>users := users self @ [\<lparr>name = nm, age = ag, user_id = counter g + 1\<rparr>]\<rparr>,
      g\<lparr>counter := counter g + 1\<rparr>)"
  by (simp add: add_user_def generate_id_def Let_def)

lemma add_user_invalid:
  "ag < 0 \<Longrightarrow> add_user self nm ag g = (Inl (Exn ValueError ''Age cannot be negative''), self, g)"
  by (simp add: add_user_def)

lemma find_loop_find: "find_loop us nm = find (\<lambda>u. name u = nm) us"
  by (induction us) auto

subsection \<open>Lists of lists\<close>

lemma set_concat_snoc:
  "r < length xss \<Longrightarrow> set (concat (xss[r := xss ! r @ [x]])) = insert x (set (concat xss))"
proof (induction xss arbitrary: r)
  case Nil
  then show ?case by simp
next
  case (Cons xs xss)
  then show ?case by (cases r) auto
qed

lemma distinct_concat_snoc:
  "r < length xss \<Longrightarrow> distinct (concat xss) \<Longrightarrow> x \<notin> set (concat xss) \<Longrightarrow>
   distinct (concat (xss[r := xss ! r @ [x]]))"
proof (induction xss arbitrary: r)
  case Nil
  then show ?case by simp
next
  case (Cons xs xss)
  show ?case
  proof (cases r)
    case 0
    with Cons.prems show ?thesis by auto
  next
    case (Suc r')
    with Cons.prems have r': "r' < length xss" by simp
    from Cons.prems have "distinct (concat xss)" "x \<notin> set (concat xss)" by auto
    with r' have d: "distinct (concat (xss[r' := xss ! r' @ [x]]))" by (rule Cons.IH)
    from r' have s: "set (concat (xss[r' := xss ! r' @ [x]])) = insert x (set (concat xss))"
      by (rule set_concat_snoc)
    from Cons.prems d s Suc show ?thesis by auto
  qed
qed

lemma list_all_update:
  "list_all P xs \<Longrightarrow> P y \<Longrightarrow> list_all P (xs[r := y])"
  by (auto simp: list_all_iff dest: set_update_subset_insert [THEN subsetD])

subsection \<open>The invariant, step by step\<close>

lemma all_ids_same:
  assumes "r < length h" and "users s = users (h ! r)"
  shows "all_ids (h[r := s]) = all_ids h"
proof -
  have "map (\<lambda>s. map user_id (users s)) (h[r := s]) = map (\<lambda>s. map user_id (users s)) h"
    using assms by (simp add: map_update list_update_same_conv)
  then show ?thesis by (simp add: all_ids_def)
qed

lemma all_ids_snoc:
  assumes "r < length h" and "users s = users (h ! r) @ [u]"
  shows "all_ids (h[r := s]) =
         concat ((map (\<lambda>s. map user_id (users s)) h)
                   [r := map (\<lambda>s. map user_id (users s)) h ! r @ [user_id u]])"
  using assms by (simp add: all_ids_def map_update)

lemma all_ids_bound:
  "list_all (service_ok g) h \<Longrightarrow> i \<in> set (all_ids h) \<Longrightarrow> 0 < i \<and> i \<le> counter g"
  by (auto simp: all_ids_def service_ok_def user_ok_def list_all_iff)

lemma user_ok_mono: "user_ok g u \<Longrightarrow> counter g \<le> counter g1 \<Longrightarrow> user_ok g1 u"
  by (simp add: user_ok_def)

lemma service_ok_mono: "service_ok g s \<Longrightarrow> counter g \<le> counter g1 \<Longrightarrow> service_ok g1 s"
  by (auto simp: service_ok_def list_all_iff intro: user_ok_mono)

lemma service_ok_same:
  "service_ok g s \<Longrightarrow> users s1 = users s \<Longrightarrow> counter g \<le> counter g1 \<Longrightarrow> service_ok g1 s1"
  by (auto simp: service_ok_def list_all_iff intro: user_ok_mono)

lemma service_ok_snoc:
  assumes "service_ok g s" and "users s1 = users s @ [u]" and "0 \<le> age u"
    and "user_id u = counter g + 1" and "counter g1 = counter g + 1" and "0 \<le> counter g"
  shows "service_ok g1 s1"
  using assms
  by (auto simp: service_ok_def list_all_iff user_ok_def sorted_wrt_append)

lemma put_same_inv:
  assumes "users_inv w" and "r < length (heap w)" and "users s = users (heap w ! r)"
    and "counter (glob w) \<le> counter g"
  shows "users_inv (put w r s g)"
proof -
  from assms have ok: "list_all (service_ok (glob w)) (heap w)" and d: "distinct (all_ids (heap w))"
    and c: "0 \<le> counter (glob w)"
    by (simp_all add: users_inv_def)
  from ok assms(2) have "service_ok (glob w) (heap w ! r)" by (simp add: list_all_length)
  with assms have s: "service_ok g s" by (auto intro: service_ok_same)
  from ok assms(4) have "list_all (service_ok g) (heap w)"
    by (auto simp: list_all_iff intro: service_ok_mono)
  from this s have "list_all (service_ok g) ((heap w)[r := s])" by (rule list_all_update)
  moreover from assms d have "distinct (all_ids ((heap w)[r := s]))" by (simp add: all_ids_same)
  ultimately show ?thesis using c assms(4) by (simp add: users_inv_def put_def)
qed

lemma put_snoc_inv:
  assumes "users_inv w" and "r < length (heap w)" and "users s = users (heap w ! r) @ [u]"
    and "0 \<le> age u" and "user_id u = counter (glob w) + 1" and "counter g = counter (glob w) + 1"
  shows "users_inv (put w r s g)"
proof -
  let ?f = "\<lambda>s. map user_id (users s)"
  from assms have ok: "list_all (service_ok (glob w)) (heap w)" and d: "distinct (all_ids (heap w))"
    and c: "0 \<le> counter (glob w)"
    by (simp_all add: users_inv_def)
  from ok assms(2) have "service_ok (glob w) (heap w ! r)" by (simp add: list_all_length)
  with assms c have s: "service_ok g s" by (auto intro: service_ok_snoc)
  from ok assms(6) have "list_all (service_ok g) (heap w)"
    by (auto simp: list_all_iff intro: service_ok_mono)
  from this s have a: "list_all (service_ok g) ((heap w)[r := s])" by (rule list_all_update)
  have fresh: "user_id u \<notin> set (all_ids (heap w))"
  proof
    assume "user_id u \<in> set (all_ids (heap w))"
    with ok have "user_id u \<le> counter (glob w)" by (auto dest: all_ids_bound)
    with assms(5) show False by simp
  qed
  have "distinct (concat ((map ?f (heap w))[r := map ?f (heap w) ! r @ [user_id u]]))"
    using assms(2) d fresh by (intro distinct_concat_snoc) (simp_all add: all_ids_def)
  with assms have "distinct (all_ids ((heap w)[r := s]))" by (simp add: all_ids_snoc)
  with a c assms(6) show ?thesis by (simp add: users_inv_def put_def)
qed

lemma step_inv:
  assumes "users_inv w" and "step w c = Some (out, w1)"
  shows "users_inv w1"
proof (cases c)
  case New
  with assms show ?thesis
    by (auto simp: users_inv_def all_ids_def init_UserService_def service_ok_def)
next
  case (AddUser r nm ag)
  show ?thesis
  proof (cases "ag < 0")
    case True
    with assms AddUser show ?thesis
      by (auto simp: add_user_invalid split: if_splits intro: put_same_inv)
  next
    case False
    with assms AddUser show ?thesis
      by (auto simp: add_user_valid split: if_splits intro!: put_snoc_inv)
  qed
next
  case (GenerateId r)
  with assms show ?thesis
    by (auto simp: generate_id_def Let_def split: if_splits intro!: put_same_inv)
next
  case (FindUser r nm)
  with assms show ?thesis
    by (auto simp: find_user_def split: if_splits intro!: put_same_inv)
next
  case (UpdateConfig r key val)
  with assms show ?thesis
    by (auto simp: update_config_def Let_def split: if_splits intro!: put_same_inv)
qed

lemma run_inv: "users_inv w \<Longrightarrow> run w cs = Some (outs, w1) \<Longrightarrow> users_inv w1"
proof (induction cs arbitrary: w outs)
  case Nil
  then show ?case by simp
next
  case (Cons c cs)
  then show ?case by (auto split: option.splits prod.splits dest: step_inv)
qed

lemma init_inv: "users_inv init_world"
  by (simp add: users_inv_def init_world_def init_globals_def all_ids_def)

subsection \<open>The ids handed out during a run\<close>

lemma step_issued:
  assumes "step w c = Some (out, w1)"
  shows "counter (glob w) \<le> counter (glob w1) \<and>
         (\<forall>i \<in> set (issued [out]). counter (glob w) < i \<and> i \<le> counter (glob w1))"
proof (cases c)
  case (AddUser r nm ag)
  show ?thesis
  proof (cases "ag < 0")
    case True
    with assms AddUser show ?thesis
      by (auto simp: add_user_invalid put_def split: if_splits)
  next
    case False
    with assms AddUser show ?thesis
      by (auto simp: add_user_valid put_def split: if_splits)
  qed
qed (use assms in \<open>auto simp: generate_id_def find_user_def update_config_def Let_def put_def
       split: if_splits\<close>)

lemma issued_Cons: "issued (out # outs) = issued [out] @ issued outs"
  by (cases out) simp_all

lemma run_issued:
  "run w cs = Some (outs, w1) \<Longrightarrow>
   counter (glob w) \<le> counter (glob w1) \<and>
   (\<forall>i \<in> set (issued outs). counter (glob w) < i \<and> i \<le> counter (glob w1)) \<and>
   sorted_wrt (<) (issued outs)"
proof (induction cs arbitrary: w outs)
  case Nil
  then show ?case by auto
next
  case (Cons c cs)
  from Cons.prems obtain out w2 outs2 where
    st: "step w c = Some (out, w2)" and rn: "run w2 cs = Some (outs2, w1)"
    and outs: "outs = out # outs2"
    by (auto split: option.splits prod.splits)
  note a = step_issued [OF st] and b = Cons.IH [OF rn]
  have s1: "sorted_wrt (<) (issued [out])" by (cases out) simp_all
  from a b s1 show ?case
    unfolding outs issued_Cons [of out outs2]
    by (fastforce simp: sorted_wrt_append)
qed

subsection \<open>The loop of process_data\<close>




lemma process_loop_caught:
  assumes "\<forall>item \<in> set items. \<forall>e. times_2 item = Inl e \<longrightarrow>
             is_Exception e \<and> fstring_error rt item e = None"
  shows "process_loop rt items None results logged =
     (Inr (results @ List.map_filter
                       (\<lambda>item. case times_2 item of Inr r \<Rightarrow> Some r | Inl e \<Rightarrow> None) items),
      logged @ List.map_filter
                 (\<lambda>item. case times_2 item of Inl e \<Rightarrow> Some (LogError item e) | Inr r \<Rightarrow> None)
                 items)"
  using assms
proof (induction items arbitrary: results logged)
  case Nil
  then show ?case by simp
next
  case (Cons item items)
  then have rest: "\<forall>item \<in> set items. \<forall>e. times_2 item = Inl e \<longrightarrow>
             is_Exception e \<and> fstring_error rt item e = None"
    by simp
  show ?case
  proof (cases "times_2 item")
    case (Inl e)
    with Cons.prems have "is_Exception e" and "fstring_error rt item e = None" by simp_all
    with Inl show ?thesis by (simp add: Cons.IH [OF rest])
  next
    case (Inr r)
    then show ?thesis by (simp add: Cons.IH [OF rest])
  qed
qed


lemma times_2_number:
  "is_number v \<Longrightarrow>
   times_2 v = Inr (case v of
                      PBool b \<Rightarrow> PInt ((if b then 1 else 0) * 2)
                    | PInt i \<Rightarrow> PInt (i * 2)
                    | PFloat x \<Rightarrow> PFloat (FloatTimesInt x 2)
                    | PComplex z \<Rightarrow> PComplex (ComplexTimesInt z 2)
                    | _ \<Rightarrow> v)"
  by (cases v) simp_all

lemma map_filter_numbers:
  "list_all is_number items \<Longrightarrow>
   List.map_filter (\<lambda>item. case times_2 item of Inr r \<Rightarrow> Some r | Inl e \<Rightarrow> None) items
     = map (\<lambda>v. case v of
                   PBool b \<Rightarrow> PInt ((if b then 1 else 0) * 2)
                 | PInt i \<Rightarrow> PInt (i * 2)
                 | PFloat x \<Rightarrow> PFloat (FloatTimesInt x 2)
                 | PComplex z \<Rightarrow> PComplex (ComplexTimesInt z 2)
                 | _ \<Rightarrow> v) items \<and>
   List.map_filter (\<lambda>item. case times_2 item of Inl e \<Rightarrow> Some (LogError item e) | Inr r \<Rightarrow> None)
     items = []"
  by (induction items) (simp_all add: times_2_number)

section \<open>add_user\<close>

text \<open>
  C1. For every instance, every name and every age that is not negative, \<^verbatim>\<open>add_user\<close>
  returns a user with that name and that age; the user is appended at the end of the
  instance's list and the counter grows by exactly one. The id of the user is the new
  value of the counter, and it is greater than every id handed out before, in any run
  of the process that led to the present globals.
\<close>

theorem add_user_valid_age:
  assumes "0 \<le> ag"
  shows "\<exists>u. add_user self nm ag g
                 = (Inr u, self\<lparr>users := users self @ [u]\<rparr>, g\<lparr>counter := counter g + 1\<rparr>) \<and>
              name u = nm \<and> age u = ag \<and> user_id u = counter g + 1 \<and>
              (\<forall>cs outs w. run init_world cs = Some (outs, w) \<and> glob w = g \<longrightarrow>
                 (\<forall>i \<in> set (issued outs). i < user_id u))"
proof -
  let ?u = "\<lparr>name = nm, age = ag, user_id = counter g + 1\<rparr>"
  have "\<forall>i \<in> set (issued outs). i < user_id ?u"
    if "run init_world cs = Some (outs, w) \<and> glob w = g" for cs outs w
    using run_issued [of init_world cs outs w] that by auto
  with add_user_valid [OF assms, of self nm g] show ?thesis by auto
qed

theorem add_user_valid_age_witness:
  "(0::int) \<le> 41 \<and>
   (\<exists>outs w u s g.
      run init_world [New, AddUser 0 ''ann'' 30, GenerateId 0] = Some (outs, w) \<and>
      issued outs = [1, 2] \<and>
      add_user (heap w ! 0) ''bob'' 41 (glob w) = (Inr u, s, g) \<and>
      name u = ''bob'' \<and> age u = 41 \<and> user_id u = 3 \<and>
      map name (users s) = [''ann'', ''bob''] \<and> counter g = 3)"
  using add_user_valid_age
    [of 41 "\<lparr>users = [\<lparr>name = ''ann'', age = 30, user_id = 1\<rparr>],
             config = [''debug'' \<mapsto> PBool True]\<rparr>" "''bob''"
        "\<lparr>cache = Map.empty, counter = 2\<rparr>"]
  by (simp add: init_world_def init_globals_def init_UserService_def add_user_def
      generate_id_def put_def Let_def)

text \<open>
  C2. For every instance, every name and every negative age, \<^verbatim>\<open>add_user\<close> raises
  \<^verbatim>\<open>ValueError\<close> (the invalid-argument error) and leaves the instance and the globals
  as they were: no user is appended and the counter is not incremented.
\<close>

theorem add_user_negative_age:
  assumes "ag < 0"
  shows "add_user self nm ag g = (Inl (Exn ValueError ''Age cannot be negative''), self, g)"
  using assms by (simp add: add_user_def)

theorem add_user_negative_age_witness:
  "(-1::int) < 0 \<and>
   add_user init_UserService ''bob'' (-1) init_globals
     = (Inl (Exn ValueError ''Age cannot be negative''), init_UserService, init_globals)"
  using add_user_negative_age [of "-1" init_UserService "''bob''" init_globals] by simp

text \<open>
  C10. \<^verbatim>\<open>add_user\<close> raises exactly when the age is negative. The name is never
  looked at: for an age that is not negative the call returns a user of that name and
  appends it after the users already there, whatever the name is (the empty string, or
  the name of a user already in the list).
\<close>

theorem add_user_fails_iff:
  "((\<exists>e. fst (add_user self nm ag g) = Inl e) \<longleftrightarrow> ag < 0) \<and>
   (0 \<le> ag \<longrightarrow>
      (\<exists>u self1 g1. add_user self nm ag g = (Inr u, self1, g1) \<and> name u = nm \<and>
         users self1 = users self @ [u]))"
proof (cases "ag < 0")
  case True
  then show ?thesis by (simp add: add_user_invalid)
next
  case False
  then have "0 \<le> ag" by simp
  then show ?thesis by (simp add: add_user_valid)
qed

theorem add_user_fails_iff_witness:
  "(0::int) \<le> 7 \<and>
   (\<exists>u self1 g1.
      add_user \<lparr>users = [\<lparr>name = [], age = 30, user_id = 1\<rparr>],
                config = [''debug'' \<mapsto> PBool True]\<rparr> [] 7 \<lparr>cache = Map.empty, counter = 1\<rparr>
        = (Inr u, self1, g1) \<and>
      users self1 = [\<lparr>name = [], age = 30, user_id = 1\<rparr>, \<lparr>name = [], age = 7, user_id = 2\<rparr>])"
  using add_user_fails_iff
    [of "\<lparr>users = [\<lparr>name = [], age = 30, user_id = 1\<rparr>],
          config = [''debug'' \<mapsto> PBool True]\<rparr>" "[]" 7 "\<lparr>cache = Map.empty, counter = 1\<rparr>"]
  by (simp add: add_user_def generate_id_def Let_def)

section \<open>find_user\<close>

text \<open>
  C5. For every instance and every name, \<^verbatim>\<open>find_user\<close> returns the first user of the
  list (the order of insertion) whose name equals the argument, and \<^verbatim>\<open>None\<close> when no
  user of the list has that name. The instance (its users and its config) and the
  globals (the cache and the counter) are returned as they were received.
\<close>

theorem find_user_first:
  "\<exists>res. find_user self nm g = (res, self, g) \<and>
     (case res of
        None \<Rightarrow> (\<forall>u \<in> set (users self). name u \<noteq> nm)
      | Some u \<Rightarrow>
          (\<exists>i < length (users self).
             users self ! i = u \<and> name u = nm \<and> (\<forall>j < i. name (users self ! j) \<noteq> nm)))"
proof (cases "find_loop (users self) nm")
  case None
  then have "\<forall>u \<in> set (users self). name u \<noteq> nm"
    by (simp add: find_loop_find find_None_iff)
  with None show ?thesis by (simp add: find_user_def)
next
  case (Some u)
  then have "\<exists>i < length (users self).
      users self ! i = u \<and> name u = nm \<and> (\<forall>j < i. name (users self ! j) \<noteq> nm)"
    by (auto simp: find_loop_find find_Some_iff)
  with Some show ?thesis by (simp add: find_user_def)
qed

theorem find_user_first_witness:
  "find_user
     \<lparr>users = [\<lparr>name = ''bob'', age = 25, user_id = 1\<rparr>, \<lparr>name = ''ann'', age = 30, user_id = 2\<rparr>,
               \<lparr>name = ''ann'', age = 31, user_id = 3\<rparr>],
      config = [''debug'' \<mapsto> PBool True]\<rparr> ''ann'' \<lparr>cache = Map.empty, counter = 3\<rparr>
   = (Some \<lparr>name = ''ann'', age = 30, user_id = 2\<rparr>,
      \<lparr>users = [\<lparr>name = ''bob'', age = 25, user_id = 1\<rparr>, \<lparr>name = ''ann'', age = 30, user_id = 2\<rparr>,
               \<lparr>name = ''ann'', age = 31, user_id = 3\<rparr>],
       config = [''debug'' \<mapsto> PBool True]\<rparr>, \<lparr>cache = Map.empty, counter = 3\<rparr>)"
  using find_user_first
    [of "\<lparr>users = [\<lparr>name = ''bob'', age = 25, user_id = 1\<rparr>,
                   \<lparr>name = ''ann'', age = 30, user_id = 2\<rparr>,
                   \<lparr>name = ''ann'', age = 31, user_id = 3\<rparr>],
          config = [''debug'' \<mapsto> PBool True]\<rparr>" "''ann''" "\<lparr>cache = Map.empty, counter = 3\<rparr>"]
  by (simp add: find_user_def)

section \<open>update_config\<close>

text \<open>
  C6. For every instance, key and value, \<^verbatim>\<open>update_config\<close> sets the key to the value
  in the config of that instance and in the cache of the module; whichever instance of
  a process makes the call, the cache of the process then holds the value at the key.
\<close>

theorem update_config_sets:
  "(\<exists>self1 g1. update_config self key val g = (self1, g1) \<and>
      config self1 key = Some val \<and> cache g1 key = Some val) \<and>
   (r < length (heap w) \<longrightarrow>
      (\<exists>w1. step w (UpdateConfig r key val) = Some (ReturnedNone, w1) \<and>
         config (heap w1 ! r) key = Some val \<and> cache (glob w1) key = Some val))"
  by (simp add: update_config_def put_def)

theorem update_config_sets_witness:
  "(1::nat) < length (heap \<lparr>glob = init_globals, heap = [init_UserService, init_UserService]\<rparr>) \<and>
   (\<exists>w1. step \<lparr>glob = init_globals, heap = [init_UserService, init_UserService]\<rparr>
             (UpdateConfig 1 ''mode'' (PStr ''fast'')) = Some (ReturnedNone, w1) \<and>
      config (heap w1 ! 1) ''mode'' = Some (PStr ''fast'') \<and>
      config (heap w1 ! 0) ''mode'' = None \<and>
      cache (glob w1) ''mode'' = Some (PStr ''fast''))"
  using update_config_sets
    [where self = init_UserService and key = "''mode''" and val = "PStr ''fast''"
       and g = init_globals and r = 1
       and w = "\<lparr>glob = init_globals, heap = [init_UserService, init_UserService]\<rparr>"]
  by (simp add: update_config_def put_def init_UserService_def)

text \<open>
  C7. For every instance, key and value, a second call of \<^verbatim>\<open>update_config\<close> with the
  same key and value, right after the first, leaves the instance and the globals (so
  the config and the cache) exactly as the first call left them.
\<close>

theorem update_config_twice:
  "(case update_config self key val g of (self1, g1) \<Rightarrow> update_config self1 key val g1)
     = update_config self key val g"
  by (simp add: update_config_def)

theorem update_config_twice_witness:
  "update_config
     (fst (update_config init_UserService ''debug'' (PBool False) init_globals))
     ''debug'' (PBool False)
     (snd (update_config init_UserService ''debug'' (PBool False) init_globals))
   = update_config init_UserService ''debug'' (PBool False) init_globals"
  using update_config_twice
    [where self = init_UserService and key = "''debug''" and val = "PBool False"
       and g = init_globals]
  by (simp add: case_prod_beta)

text \<open>
  C9. For every instance, key and value, \<^verbatim>\<open>update_config\<close> leaves every other key
  of the config and of the cache at the value it had, and leaves the users of the
  instance and the counter unchanged.
\<close>

theorem update_config_frame:
  "\<exists>self1 g1. update_config self key val g = (self1, g1) \<and>
     users self1 = users self \<and> counter g1 = counter g \<and>
     (\<forall>k. k \<noteq> key \<longrightarrow> config self1 k = config self k \<and> cache g1 k = cache g k)"
  by (simp add: update_config_def)

theorem update_config_frame_witness:
  "\<exists>self1 g1.
     update_config init_UserService ''mode'' (PInt 1) \<lparr>cache = [''debug'' \<mapsto> PNone], counter = 5\<rparr>
       = (self1, g1) \<and>
     users self1 = [] \<and> counter g1 = 5 \<and>
     config self1 ''debug'' = Some (PBool True) \<and> cache g1 ''debug'' = Some PNone"
  using update_config_frame
    [of init_UserService "''mode''" "PInt 1" "\<lparr>cache = [''debug'' \<mapsto> PNone], counter = 5\<rparr>"]
  by (auto simp: init_UserService_def)

section \<open>The invariant of the user collections\<close>

text \<open>
  C8. The invariant is preserved by every call (creating an instance, \<^verbatim>\<open>add_user\<close>,
  \<^verbatim>\<open>generate_id\<close>, \<^verbatim>\<open>find_user\<close>, \<^verbatim>\<open>update_config\<close>), and it holds in every
  state a process reaches from the initial one: every user of every instance has an age
  that is not negative and an id between 1 and the counter, no id occurs twice among
  all users, the ids of an instance increase strictly along its list, and the ids
  handed out during the run increase strictly in the order they were handed out.
\<close>

theorem users_inv_reachable:
  "(users_inv w \<and> step w c = Some (out, w1) \<longrightarrow> users_inv w1) \<and>
   (run init_world cs = Some (outs, w2) \<longrightarrow> users_inv w2 \<and> sorted_wrt (<) (issued outs))"
  using step_inv [of w c out w1] run_inv [OF init_inv, of cs outs w2]
    run_issued [of init_world cs outs w2]
  by blast

theorem users_inv_reachable_witness:
  "users_inv init_world \<and>
   step init_world New = Some (Created 0, \<lparr>glob = init_globals, heap = [init_UserService]\<rparr>) \<and>
   users_inv \<lparr>glob = init_globals, heap = [init_UserService]\<rparr> \<and>
   (\<exists>outs w2.
      run init_world
        [New, New, AddUser 0 ''ann'' 30, AddUser 1 ''bob'' 25, AddUser 0 ''cy'' (-1),
         UpdateConfig 1 ''mode'' (PInt 1), FindUser 0 ''ann'', AddUser 0 ''ann'' 31]
        = Some (outs, w2) \<and>
      users_inv w2 \<and> issued outs = [1, 2, 3] \<and>
      map user_id (users (heap w2 ! 0)) = [1, 3] \<and> map user_id (users (heap w2 ! 1)) = [2])"
proof -
  let ?cs = "[New, New, AddUser 0 ''ann'' 30, AddUser 1 ''bob'' 25, AddUser 0 ''cy'' (-1),
              UpdateConfig 1 ''mode'' (PInt 1), FindUser 0 ''ann'', AddUser 0 ''ann'' 31]"
  have i: "users_inv init_world"
    by (simp add: users_inv_def init_world_def init_globals_def all_ids_def)
  have s: "step init_world New
             = Some (Created 0, \<lparr>glob = init_globals, heap = [init_UserService]\<rparr>)"
    by (simp add: init_world_def)
  obtain outs w2 where r: "run init_world ?cs = Some (outs, w2)"
    and o: "issued outs = [1, 2, 3]"
    and u0: "map user_id (users (heap w2 ! 0)) = [1, 3]"
    and u1: "map user_id (users (heap w2 ! 1)) = [2]"
    by (simp add: init_world_def init_globals_def init_UserService_def add_user_def
        generate_id_def find_user_def update_config_def put_def Let_def)
  from users_inv_reachable
    [of init_world New "Created 0" "\<lparr>glob = init_globals, heap = [init_UserService]\<rparr>"
        ?cs outs w2] i s r
  have "users_inv \<lparr>glob = init_globals, heap = [init_UserService]\<rparr>" and "users_inv w2"
    by blast+
  with i s r o u0 u1 show ?thesis
    by - (rule conjI exI | assumption)+
qed

section \<open>process_data\<close>




text \<open>
  C4. \<^verbatim>\<open>process_data([1, 2, 3])\<close> returns \<^verbatim>\<open>[2, 4, 6]\<close>. For every list whose items
  are all numbers (\<^verbatim>\<open>bool\<close>, \<^verbatim>\<open>int\<close>, \<^verbatim>\<open>float\<close>, \<^verbatim>\<open>complex\<close>), \<^verbatim>\<open>process_data\<close>
  returns the list of the items multiplied by two, in the same order and of the same
  length, and logs nothing.
\<close>

theorem process_data_numbers:
  "process_data rt (Iteration [PInt 1, PInt 2, PInt 3] None) = (Inr [PInt 2, PInt 4, PInt 6], []) \<and>
   (list_all is_number items \<longrightarrow>
      (\<exists>results. process_data rt (Iteration items None) = (Inr results, []) \<and>
         results = map (\<lambda>v. case v of
                               PBool b \<Rightarrow> PInt ((if b then 1 else 0) * 2)
                             | PInt i \<Rightarrow> PInt (i * 2)
                             | PFloat x \<Rightarrow> PFloat (FloatTimesInt x 2)
                             | PComplex z \<Rightarrow> PComplex (ComplexTimesInt z 2)
                             | _ \<Rightarrow> v) items \<and>
         length results = length items))"
proof -
  have "process_data rt (Iteration [PInt 1, PInt 2, PInt 3] None)
          = (Inr [PInt 2, PInt 4, PInt 6], [])"
    by simp
  moreover have "\<exists>results. process_data rt (Iteration items None) = (Inr results, []) \<and>
         results = map (\<lambda>v. case v of
                               PBool b \<Rightarrow> PInt ((if b then 1 else 0) * 2)
                             | PInt i \<Rightarrow> PInt (i * 2)
                             | PFloat x \<Rightarrow> PFloat (FloatTimesInt x 2)
                             | PComplex z \<Rightarrow> PComplex (ComplexTimesInt z 2)
                             | _ \<Rightarrow> v) items \<and>
         length results = length items"
    if n: "list_all is_number items"
  proof -
    have "\<forall>item \<in> set items. \<forall>e. times_2 item = Inl e \<longrightarrow>
             is_Exception e \<and> fstring_error rt item e = None"
      using n by (auto simp: list_all_iff times_2_number)
    then show ?thesis
      using map_filter_numbers [OF n] by (simp add: process_loop_caught)
  qed
  ultimately show ?thesis by blast
qed

theorem process_data_numbers_witness:
  "list_all is_number
     [PInt 5, PBool True, PInt (-3), PFloat (FloatBits 0x3FF8000000000000),
      PComplex (ComplexParts (FloatBits 0x3FF0000000000000) (FloatBits 0x4000000000000000))] \<and>
   process_data default_runtime
     (Iteration
        [PInt 5, PBool True, PInt (-3), PFloat (FloatBits 0x3FF8000000000000),
         PComplex (ComplexParts (FloatBits 0x3FF0000000000000) (FloatBits 0x4000000000000000))]
        None)
   = (Inr [PInt 10, PInt 2, PInt (-6),
           PFloat (FloatTimesInt (FloatBits 0x3FF8000000000000) 2),
           PComplex (ComplexTimesInt
             (ComplexParts (FloatBits 0x3FF0000000000000) (FloatBits 0x4000000000000000)) 2)],
      [])"
  using process_data_numbers
    [where rt = default_runtime
       and items = "[PInt 5, PBool True, PInt (-3), PFloat (FloatBits 0x3FF8000000000000),
         PComplex (ComplexParts (FloatBits 0x3FF0000000000000) (FloatBits 0x4000000000000000))]"]
  by simp

end
